theory Spec2Isabelle
  imports Main
begin

section \<open>Phone normalizer and matcher\<close>

text \<open>
  Strings are Isabelle strings. Python's \<^verbatim>\<open>re.sub(r'\D', '', phone)\<close> keeps exactly
  the decimal digits; on the characters an Isabelle string can hold these are
  \<^verbatim>\<open>0\<close> to \<^verbatim>\<open>9\<close>.
\<close>

definition is_digit :: "char \<Rightarrow> bool" where
  "is_digit c = (c \<in> set ''0123456789'')"

definition digits_only :: "string \<Rightarrow> string" where
  "digits_only phone = filter is_digit phone"

text \<open>\<^verbatim>\<open>s.startswith(p)\<close>\<close>

fun startswith :: "string \<Rightarrow> string \<Rightarrow> bool" where
  "startswith s [] = True"
| "startswith [] (p # ps) = False"
| "startswith (c # cs) (p # ps) = (c = p \<and> startswith cs ps)"

text \<open>\<^verbatim>\<open>s[-n:]\<close> for a positive \<open>n\<close>: the last \<open>n\<close> characters, the whole string when it is shorter.\<close>

definition last_chars :: "nat \<Rightarrow> string \<Rightarrow> string" where
  "last_chars n s = drop (length s - n) s"

text \<open>\<^verbatim>\<open>needle in hay\<close> on strings: \<open>needle\<close> occurs as a contiguous substring of \<open>hay\<close>.\<close>

fun py_in :: "string \<Rightarrow> string \<Rightarrow> bool" where
  "py_in needle [] = (needle = [])"
| "py_in needle (c # cs) = (startswith (c # cs) needle \<or> py_in needle cs)"

definition country_prefixes :: "string list" where
  "country_prefixes = [''1'', ''44'', ''49'', ''33'', ''39'', ''34'', ''31'', ''98'', ''359'']"

text \<open>
  The \<^verbatim>\<open>for prefix in [...]\<close> loop of \<^verbatim>\<open>normalize_phone\<close>: the first prefix whose test
  succeeds is cut off and the loop is left (\<^verbatim>\<open>break\<close>).
\<close>

fun strip_prefix_loop :: "string list \<Rightarrow> string \<Rightarrow> string" where
  "strip_prefix_loop [] digits = digits"
| "strip_prefix_loop (p # ps) digits =
     (if startswith digits p \<and> length digits > 10 then drop (length p) digits
      else strip_prefix_loop ps digits)"

text \<open>\<^verbatim>\<open>WooCommerceClient.normalize_phone\<close>\<close>

definition normalize_phone :: "string \<Rightarrow> string" where
  "normalize_phone phone =
     (let digits = digits_only phone;
          digits =
            (if length digits > 10 then
               (let digits =
                      (if startswith digits ''00'' then drop 2 digits
                       else if startswith digits ''0'' then drop 1 digits
                       else digits)
                in strip_prefix_loop country_prefixes digits)
             else digits)
      in if length digits \<ge> 10 then last_chars 10 digits else digits)"

text \<open>\<^verbatim>\<open>WooCommerceClient._phone_matches\<close>, on two values that are already normalized.\<close>

definition phone_matches :: "string \<Rightarrow> string \<Rightarrow> bool" where
  "phone_matches normalized_search normalized_billing =
     (if normalized_search = [] \<or> normalized_billing = [] then False
      else if py_in normalized_search normalized_billing
              \<or> py_in normalized_billing normalized_search then True
      else if length normalized_search \<ge> 9 \<and> length normalized_billing \<ge> 9 then
        (if last_chars 9 normalized_search = last_chars 9 normalized_billing then True
         else False)
      else False)"

text \<open>
  The matching of the order-lookup layer, as \<^verbatim>\<open>search_orders_by_phone\<close> performs it:
  both the searched phone and the billing phone go through \<^verbatim>\<open>normalize_phone\<close> and the
  results are handed to \<^verbatim>\<open>_phone_matches\<close>.
\<close>

definition lookup_match :: "string \<Rightarrow> string \<Rightarrow> bool" where
  "lookup_match a b = phone_matches (normalize_phone a) (normalize_phone b)"

text \<open>\<^verbatim>\<open>AsteriskAMI._normalize_number\<close>: the digits, with every leading zero removed.\<close>

definition normalize_number :: "string \<Rightarrow> string" where
  "normalize_number number = dropWhile (\<lambda>c. c = CHR ''0'') (digits_only number)"

text \<open>\<^verbatim>\<open>AsteriskAMI._numbers_match\<close>\<close>

definition numbers_match :: "string \<Rightarrow> string \<Rightarrow> bool" where
  "numbers_match num1 num2 =
     (let n1 = normalize_number num1; n2 = normalize_number num2
      in if n1 = [] \<or> n2 = [] then False
         else py_in n1 n2 \<or> py_in n2 n1
              \<or> (length n1 \<ge> 9 \<and> length n2 \<ge> 9 \<and> last_chars 9 n1 = last_chars 9 n2))"

section \<open>Webhook listener\<close>

text \<open>
  A notification is what \<^verbatim>\<open>signals.incoming_call.emit(phone, metadata)\<close> carries: the
  phone as received and a dictionary of metadata.
\<close>

type_synonym event = "string \<rightharpoonup> string"

record notification =
  phone :: string
  metadata :: event

text \<open>
  The value \<^verbatim>\<open>json.loads\<close> returns. Numbers are integers here; a dictionary is the list
  of its items, read with \<open>map_of\<close>.
\<close>

datatype json =
    JNull
  | JBool bool
  | JNum int
  | JStr string
  | JArr "json list"
  | JObj "(string \<times> json) list"

text \<open>
  What the first three statements of the \<^verbatim>\<open>try\<close> block of \<^verbatim>\<open>do_POST\<close> yield: they read
  the Content-Length header, read and decode the body and parse it with \<^verbatim>\<open>json.loads\<close>.
  Either one of them raises (\<open>Unparsable\<close>) or the parsed value is there (\<open>Parsed\<close>).
\<close>

datatype payload = Unparsable | Parsed json

text \<open>
  A request without content: the header is absent, zero bytes are read and
  \<^verbatim>\<open>json.loads('')\<close> raises \<^verbatim>\<open>JSONDecodeError\<close>, since the empty string is not a JSON text.
\<close>

definition empty_body :: payload where
  "empty_body = Unparsable"

record request =
  path :: string
  body :: payload

text \<open>
  The exceptions the handler can meet: a body that cannot be read or parsed, a parsed value
  that is no dictionary (\<^verbatim>\<open>data.get\<close> raises \<^verbatim>\<open>AttributeError\<close>), and a phone that is not a
  string (the signal is declared \<^verbatim>\<open>pyqtSignal(str, dict)\<close> and \<^verbatim>\<open>emit\<close> raises \<^verbatim>\<open>TypeError\<close>).
\<close>

datatype handler_error = BodyError | NotADict | PhoneNotAString

text \<open>
  The JSON written to the client: the two literal objects of the source, the object
  \<^verbatim>\<open>{"error": str(e)}\<close> of the \<^verbatim>\<open>except\<close> branch, or nothing (404).
\<close>

datatype reply = JsonReply "(string \<times> string) list" | ErrorReply handler_error | NoReply

record response =
  status :: nat
  content :: reply

text \<open>Python's truth value of a parsed JSON value (\<^verbatim>\<open>if phone:\<close>).\<close>

fun truthy :: "json \<Rightarrow> bool" where
  "truthy JNull = False"
| "truthy (JBool b) = b"
| "truthy (JNum n) = (n \<noteq> 0)"
| "truthy (JStr s) = (s \<noteq> [])"
| "truthy (JArr xs) = (xs \<noteq> [])"
| "truthy (JObj kvs) = (kvs \<noteq> [])"

text \<open>\<^verbatim>\<open>data.get('phone', '')\<close> on a dictionary.\<close>

definition get_phone :: "(string \<times> json) list \<Rightarrow> json" where
  "get_phone kvs = (case map_of kvs ''phone'' of None \<Rightarrow> JStr [] | Some v \<Rightarrow> v)"

text \<open>
  \<^verbatim>\<open>WebhookHandler.do_POST\<close>: the response sent and the notifications emitted.
\<close>

definition do_POST :: "request \<Rightarrow> response \<times> notification list" where
  "do_POST req =
     (if path req = ''/incoming-call'' then
        (case body req of
           Unparsable \<Rightarrow> (\<lparr>status = 500, content = ErrorReply BodyError\<rparr>, [])
         | Parsed data \<Rightarrow>
            (case data of
               JObj kvs \<Rightarrow>
                 (let phone = get_phone kvs in
                  if truthy phone then
                    (case phone of
                       JStr p \<Rightarrow>
                         (\<lparr>status = 200, content = JsonReply [(''status'', ''ok'')]\<rparr>,
                          [\<lparr>phone = p, metadata = [''source'' \<mapsto> ''android'']\<rparr>])
                     | _ \<Rightarrow> (\<lparr>status = 500, content = ErrorReply PhoneNotAString\<rparr>, []))
                  else
                    (\<lparr>status = 400, content = JsonReply [(''error'', ''phone required'')]\<rparr>, []))
             | _ \<Rightarrow> (\<lparr>status = 500, content = ErrorReply NotADict\<rparr>, [])))
      else (\<lparr>status = 404, content = NoReply\<rparr>, []))"

section \<open>Reconnect loop\<close>

text \<open>The flags of \<^verbatim>\<open>AsteriskAMI\<close> that the reconnect loop reads and writes.\<close>

record session =
  running :: bool
  auto_reconnect :: bool
  connected :: bool

text \<open>
  What happens around one pass of the loop and is not decided by the loop itself:
  whether \<^verbatim>\<open>disconnect()\<close> is called from outside while the loop sleeps, and whether
  \<^verbatim>\<open>connect()\<close> succeeds.
\<close>

record attempt =
  stopped_while_sleeping :: bool
  connect_succeeds :: bool

definition reconnect_delay :: nat where
  "reconnect_delay = 5"

definition max_delay :: nat where
  "max_delay = 60"

text \<open>The flags after \<^verbatim>\<open>disconnect()\<close>.\<close>

definition disconnect :: "session \<Rightarrow> session" where
  "disconnect s = s\<lparr>auto_reconnect := False, running := False, connected := False\<rparr>"

text \<open>
  The \<^verbatim>\<open>while\<close> loop of \<^verbatim>\<open>_reconnect\<close> with its counter \<open>retry_count\<close>. The result holds
  the flags at the end, the delays slept in seconds, and the returned value; it is
  \<open>None\<close> when the loop is still running after the last described pass.
\<close>

fun reconnect_loop :: "session \<Rightarrow> nat \<Rightarrow> attempt list \<Rightarrow> session \<times> nat list \<times> bool option" where
  "reconnect_loop s retry_count [] =
     (if running s \<and> auto_reconnect s \<and> \<not> connected s then (s, [], None)
      else (s, [], Some False))"
| "reconnect_loop s retry_count (a # rest) =
     (if running s \<and> auto_reconnect s \<and> \<not> connected s then
        (let delay = min (reconnect_delay * 2 ^ retry_count) max_delay;
             s1 = (if stopped_while_sleeping a then disconnect s else s)
         in if \<not> running s1 \<or> \<not> auto_reconnect s1 then (s1, [delay], Some False)
            else if connect_succeeds a then (s1\<lparr>connected := True\<rparr>, [delay], Some True)
            else (case reconnect_loop s1 (retry_count + 1) rest of
                    (s2, delays, r) \<Rightarrow> (s2, delay # delays, r)))
      else (s, [], Some False))"

text \<open>\<^verbatim>\<open>AsteriskAMI._reconnect\<close>: the counter starts at zero in every call.\<close>

definition reconnect :: "session \<Rightarrow> attempt list \<Rightarrow> session \<times> nat list \<times> bool option" where
  "reconnect s attempts = reconnect_loop s 0 attempts"

definition failed_attempt :: attempt where
  "failed_attempt = \<lparr>stopped_while_sleeping = False, connect_succeeds = False\<rparr>"

definition successful_attempt :: attempt where
  "successful_attempt = \<lparr>stopped_while_sleeping = False, connect_succeeds = True\<rparr>"

section \<open>Call correlator and dedup cache\<close>

text \<open>
  \<^verbatim>\<open>str.upper()\<close>, character by character. A character of the string is a code point below
  256; its upper case is a sequence of code points, which are natural numbers here, because
  three of them leave that range or grow: the letters \<^verbatim>\<open>a\<close> to \<^verbatim>\<open>z\<close> (97 to 122) and the
  letters 224 to 254 other than the division sign 247 move down by 32; the micro sign 181
  becomes the Greek capital mu 924, the sharp s 223 becomes \<^verbatim>\<open>SS\<close>, and the y with diaeresis
  255 becomes 376; every other character is left as it is.
\<close>

definition upper_char :: "char \<Rightarrow> nat list" where
  "upper_char c =
     (let n = of_char c
      in if 97 \<le> n \<and> n \<le> 122 then [n - 32]
         else if n = 181 then [924]
         else if n = 223 then [83, 83]
         else if n = 255 then [376]
         else if 224 \<le> n \<and> n \<le> 254 \<and> n \<noteq> 247 then [n - 32]
         else [n])"

definition upper :: "string \<Rightarrow> nat list" where
  "upper s = concat (map upper_char s)"

text \<open>\<^verbatim>\<open>channel.upper().split('-')[0]\<close>; the hyphen is the code point 45.\<close>

definition base_name :: "string \<Rightarrow> nat list" where
  "base_name channel = takeWhile (\<lambda>n. n \<noteq> 45) (upper channel)"

text \<open>\<^verbatim>\<open>event.get(key, default)\<close>\<close>

definition get_field :: "event \<Rightarrow> string \<Rightarrow> string \<Rightarrow> string" where
  "get_field ev key dflt = (case ev key of None \<Rightarrow> dflt | Some v \<Rightarrow> v)"

text \<open>
  \<^verbatim>\<open>v if v and v not in ('<unknown>', '', 's', 'anonymous') else None\<close>
\<close>

definition pick_caller :: "string \<Rightarrow> string option" where
  "pick_caller v =
     (if v \<noteq> [] \<and> v \<notin> set [''<unknown>'', '''', ''s'', ''anonymous''] then Some v else None)"

text \<open>The truth value of \<^verbatim>\<open>actual_caller\<close>, which is \<^verbatim>\<open>None\<close> or a string.\<close>

definition is_set :: "string option \<Rightarrow> bool" where
  "is_set v = (case v of None \<Rightarrow> False | Some s \<Rightarrow> s \<noteq> [])"

text \<open>
  The three detection methods of \<^verbatim>\<open>_process_event\<close>. Each takes the pair
  \<^verbatim>\<open>(actual_caller, matched)\<close> as the statements before it left it and returns it as it
  leaves it.
\<close>

definition method_dial_begin ::
    "nat list \<Rightarrow> event \<Rightarrow> string option \<times> bool \<Rightarrow> string option \<times> bool" where
  "method_dial_begin watch ev am =
     (let event_type = get_field ev ''Event'' '''';
          caller_id = get_field ev ''CallerIDNum'' '''';
          dest_channel = get_field ev ''DestChannel'' ''''
      in if event_type = ''DialBegin'' \<and> watch \<noteq> [] \<and> dest_channel \<noteq> [] then
           (if base_name dest_channel = watch then
              (let actual_caller = pick_caller caller_id
               in if is_set actual_caller then (actual_caller, True)
                  else (actual_caller, snd am))
            else am)
         else am)"

definition method_dial_state ::
    "nat list \<Rightarrow> event \<Rightarrow> string option \<times> bool \<Rightarrow> string option \<times> bool" where
  "method_dial_state watch ev am =
     (let event_type = get_field ev ''Event'' '''';
          caller_id = get_field ev ''CallerIDNum'' '''';
          dest_channel = get_field ev ''DestChannel'' '''';
          state = get_field ev ''ChannelStateDesc'' ''''
      in if \<not> snd am \<and> event_type = ''DialState'' \<and> watch \<noteq> [] \<and> dest_channel \<noteq> [] then
           (if base_name dest_channel = watch \<and> state = ''Ringing'' then
              (let actual_caller = pick_caller caller_id
               in if is_set actual_caller then (actual_caller, True)
                  else (actual_caller, snd am))
            else am)
         else am)"

definition method_newstate ::
    "nat list \<Rightarrow> event \<Rightarrow> string option \<times> bool \<Rightarrow> string option \<times> bool" where
  "method_newstate watch ev am =
     (let event_type = get_field ev ''Event'' '''';
          channel = get_field ev ''Channel'' '''';
          caller_id = get_field ev ''CallerIDNum'' '''';
          connected_num = get_field ev ''ConnectedLineNum'' '''';
          state = get_field ev ''ChannelStateDesc'' ''''
      in if \<not> snd am \<and> event_type = ''Newstate'' \<and> state = ''Ringing'' \<and> watch \<noteq> []
            \<and> channel \<noteq> [] then
           (if base_name channel = watch then
              (let actual_caller = pick_caller connected_num;
                   actual_caller =
                     (if \<not> is_set actual_caller then pick_caller caller_id else actual_caller)
               in if is_set actual_caller then (actual_caller, True)
                  else (actual_caller, snd am))
            else am)
         else am)"

text \<open>
  The caller a record yields: the three methods in the order of the source, starting from
  \<^verbatim>\<open>actual_caller = None\<close> and \<^verbatim>\<open>matched = False\<close>, then the test
  \<^verbatim>\<open>if matched and actual_caller\<close>.
\<close>

definition find_caller :: "nat list \<Rightarrow> event \<Rightarrow> string option" where
  "find_caller watch ev =
     (let am = method_newstate watch ev
                 (method_dial_state watch ev (method_dial_begin watch ev (None, False)))
      in if snd am \<and> is_set (fst am) then fst am else None)"

text \<open>
  \<^verbatim>\<open>linked_id = event.get('Linkedid', unique_id)\<close> with
  \<^verbatim>\<open>unique_id = event.get('Uniqueid', '')\<close>
\<close>

definition linked_id :: "event \<Rightarrow> string" where
  "linked_id ev = get_field ev ''Linkedid'' (get_field ev ''Uniqueid'' '''')"

text \<open>\<^verbatim>\<open>f"call_{linked_id}_{actual_caller}"\<close>\<close>

definition call_key :: "string \<Rightarrow> string \<Rightarrow> string" where
  "call_key linked caller = ''call_'' @ linked @ ''_'' @ caller"

text \<open>
  \<^verbatim>\<open>_processed_calls\<close> is a Python set, which has no order of its own. The model keeps its
  members in a list without duplicates, in the order in which they were added to the
  current set object. The order in which \<^verbatim>\<open>list(self._processed_calls)\<close> enumerates them is
  not fixed by the language (it depends on the hashes of the strings); it is the parameter
  \<open>order\<close>, a function from the members as added to the members as enumerated. The
  set built from the slice receives its members in the order of the slice.
\<close>

record ami =
  watch_channel :: "nat list"
  processed_calls :: "string list"

text \<open>\<^verbatim>\<open>AsteriskAMI.__init__\<close>, for the two attributes above.\<close>

definition ami_init :: "string \<Rightarrow> ami" where
  "ami_init configured_channel = \<lparr>watch_channel = upper configured_channel, processed_calls = []\<rparr>"

text \<open>\<^verbatim>\<open>xs[-n:]\<close> on a list, for a positive \<open>n\<close>.\<close>

definition last_items :: "nat \<Rightarrow> 'a list \<Rightarrow> 'a list" where
  "last_items n xs = drop (length xs - n) xs"

text \<open>
  \<^verbatim>\<open>self._processed_calls.add(call_key)\<close> for a key that is not in the set, followed by
  the clean-up.
\<close>

definition add_call :: "(string list \<Rightarrow> string list) \<Rightarrow> string list \<Rightarrow> string \<Rightarrow> string list" where
  "add_call order calls key =
     (let calls = calls @ [key]
      in if length calls > 200 then last_items 100 (order calls) else calls)"

text \<open>
  \<^verbatim>\<open>_process_event\<close> from the point where the record has been built: the new state and
  the notifications emitted.
\<close>

definition process_record ::
    "(string list \<Rightarrow> string list) \<Rightarrow> ami \<Rightarrow> event \<Rightarrow> ami \<times> notification list" where
  "process_record order st ev =
     (case find_caller (watch_channel st) ev of
        None \<Rightarrow> (st, [])
      | Some actual_caller \<Rightarrow>
          (let key = call_key (linked_id ev) actual_caller
           in if key \<notin> set (processed_calls st) then
                (st\<lparr>processed_calls := add_call order (processed_calls st) key\<rparr>,
                 [\<lparr>phone = actual_caller, metadata = ev\<rparr>])
              else (st, [])))"

text \<open>The records of a session, processed one after the other.\<close>

fun process_records ::
    "(string list \<Rightarrow> string list) \<Rightarrow> ami \<Rightarrow> event list \<Rightarrow> ami \<times> notification list" where
  "process_records order st [] = (st, [])"
| "process_records order st (ev # evs) =
     (case process_record order st ev of
        (st1, out1) \<Rightarrow>
          (case process_records order st1 evs of
             (st2, out2) \<Rightarrow> (st2, out1 @ out2)))"

text \<open>
  Building the record from the text of a frame: \<^verbatim>\<open>str.strip()\<close>, \<^verbatim>\<open>split('\r\n')\<close>, and
  for each line with a colon \<^verbatim>\<open>line.split(':', 1)\<close>.
\<close>

definition is_space :: "char \<Rightarrow> bool" where
  "is_space c =
     (c \<in> set [CHR 0x09, CHR 0x0A, CHR 0x0B, CHR 0x0C, CHR 0x0D, CHR 0x1C, CHR 0x1D, CHR 0x1E,
               CHR 0x1F, CHR 0x20, CHR 0x85, CHR 0xA0])"

definition strip :: "string \<Rightarrow> string" where
  "strip s = rev (dropWhile is_space (rev (dropWhile is_space s)))"

fun split_crlf :: "string \<Rightarrow> string list" where
  "split_crlf [] = [[]]"
| "split_crlf [c] = [[c]]"
| "split_crlf (c # d # cs) =
     (if c = CHR 0x0D \<and> d = CHR 0x0A then [] # split_crlf cs
      else (case split_crlf (d # cs) of
              [] \<Rightarrow> [[c]]
            | l # ls \<Rightarrow> (c # l) # ls))"

definition add_line :: "event \<Rightarrow> string \<Rightarrow> event" where
  "add_line ev line =
     (if CHR '':'' \<in> set line then
        ev(strip (takeWhile (\<lambda>c. c \<noteq> CHR '':'') line)
             \<mapsto> strip (drop 1 (dropWhile (\<lambda>c. c \<noteq> CHR '':'') line)))
      else ev)"

definition parse_event :: "string \<Rightarrow> event" where
  "parse_event event_str = foldl add_line Map.empty (split_crlf (strip event_str))"

text \<open>\<^verbatim>\<open>AsteriskAMI._process_event\<close>\<close>

definition process_event ::
    "(string list \<Rightarrow> string list) \<Rightarrow> ami \<Rightarrow> string \<Rightarrow> ami \<times> notification list" where
  "process_event order st event_str = process_record order st (parse_event event_str)"

section \<open>The spec's wording of the normalizer and the matcher\<close>

text \<open>
  The rule of the spec for a digit string of more than 10 digits, in its words: remove a
  leading \<^verbatim>\<open>00\<close>, else a single leading \<^verbatim>\<open>0\<close>; strip at most one prefix, the first of the
  list, in its order, that matches and that still leaves more than 10 digits; return the
  last 10 digits if at least 10 remain, otherwise all of them.
\<close>

definition spec_normalize_long :: "string \<Rightarrow> string" where
  "spec_normalize_long digits =
     (let d = (if startswith digits ''00'' then drop 2 digits
               else if startswith digits ''0'' then drop 1 digits
               else digits);
          d = (case find (\<lambda>p. startswith d p \<and> length (drop (length p) d) > 10)
                      country_prefixes of
                 None \<Rightarrow> d
               | Some p \<Rightarrow> drop (length p) d)
      in if length d \<ge> 10 then last_chars 10 d else d)"

text \<open>
  The same rule with the length read before the prefix is cut: the prefix that is stripped
  is the first of the list, in its order, that matches while the digit string, after the
  removal of the zeros, has more than 10 digits. What is left after the prefix may then
  have 10 digits or fewer.
\<close>

definition amended_normalize_long :: "string \<Rightarrow> string" where
  "amended_normalize_long digits =
     (let d = (if startswith digits ''00'' then drop 2 digits
               else if startswith digits ''0'' then drop 1 digits
               else digits);
          d = (case find (\<lambda>p. startswith d p \<and> length d > 10) country_prefixes of
                 None \<Rightarrow> d
               | Some p \<Rightarrow> drop (length p) d)
      in if length d \<ge> 10 then last_chars 10 d else d)"

text \<open>
  The rule of the spec for matching: normalize both; either normalized value is a substring
  of the other, or both have at least 9 digits and their last 9 digits are equal.
\<close>

definition spec_match :: "string \<Rightarrow> string \<Rightarrow> bool" where
  "spec_match a b =
     (let na = normalize_phone a; nb = normalize_phone b
      in py_in na nb \<or> py_in nb na
         \<or> (length na \<ge> 9 \<and> length nb \<ge> 9 \<and> last_chars 9 na = last_chars 9 nb))"

section \<open>The spec's wording of the backoff and of the placeholder values\<close>

text \<open>The delay the spec gives for the attempt numbered \<open>attempt\<close>, counted from zero.\<close>

definition backoff :: "nat \<Rightarrow> nat" where
  "backoff attempt = min (5 * 2 ^ attempt) 60"

text \<open>
  The placeholder values of the spec: the empty string, the unknown marker, a bare \<^verbatim>\<open>s\<close>
  and \<^verbatim>\<open>anonymous\<close>.
\<close>

definition is_placeholder :: "string \<Rightarrow> bool" where
  "is_placeholder v = (v \<in> set ['''', ''<unknown>'', ''s'', ''anonymous''])"

section \<open>Sample records and sessions\<close>

text \<open>
  Records as the PBX sends them for calls that reach the watched channel \<^verbatim>\<open>SIP/1034\<close>, one
  for each detection method.
\<close>

definition dial_begin :: "string \<Rightarrow> string \<Rightarrow> event" where
  "dial_begin linked caller =
     [''Event'' \<mapsto> ''DialBegin'', ''DestChannel'' \<mapsto> ''SIP/1034-00000a1b'',
      ''CallerIDNum'' \<mapsto> caller, ''Linkedid'' \<mapsto> linked]"

definition dial_state :: "string \<Rightarrow> string \<Rightarrow> event" where
  "dial_state linked caller =
     [''Event'' \<mapsto> ''DialState'', ''DestChannel'' \<mapsto> ''SIP/1034-00000a1b'',
      ''ChannelStateDesc'' \<mapsto> ''Ringing'', ''CallerIDNum'' \<mapsto> caller,
      ''Linkedid'' \<mapsto> linked]"

definition newstate :: "string \<Rightarrow> string \<Rightarrow> string \<Rightarrow> event" where
  "newstate linked connected_num caller =
     [''Event'' \<mapsto> ''Newstate'', ''Channel'' \<mapsto> ''SIP/1034-00000a1b'',
      ''ChannelStateDesc'' \<mapsto> ''Ringing'', ''ConnectedLineNum'' \<mapsto> connected_num,
      ''CallerIDNum'' \<mapsto> caller, ''Linkedid'' \<mapsto> linked]"

text \<open>
  A family of calls with pairwise different linked-call identifiers \<^verbatim>\<open>7\<close>, \<^verbatim>\<open>77\<close>,
  \<^verbatim>\<open>777\<close>, and so on, all from the caller \<^verbatim>\<open>0888123456\<close>, with the key and the notification
  that belong to each.
\<close>

definition nth_call :: "nat \<Rightarrow> event" where
  "nth_call i = dial_begin (replicate (Suc i) CHR ''7'') ''0888123456''"

definition nth_key :: "nat \<Rightarrow> string" where
  "nth_key i = call_key (replicate (Suc i) CHR ''7'') ''0888123456''"

definition nth_notification :: "nat \<Rightarrow> notification" where
  "nth_notification i = \<lparr>phone = ''0888123456'', metadata = nth_call i\<rparr>"

text \<open>
  The watched channel as \<^verbatim>\<open>__init__\<close> stores it when the configuration names
  \<^verbatim>\<open>sip/1034\<close>: the code points of \<^verbatim>\<open>SIP/1034\<close>.
\<close>

definition watched :: "nat list" where
  "watched = upper ''sip/1034''"

text \<open>The correlator as it starts when the configuration names the channel \<^verbatim>\<open>sip/1034\<close>.\<close>

definition watching :: ami where
  "watching = ami_init ''sip/1034''"

text \<open>A session that is listening and has lost its connection.\<close>

definition lost :: session where
  "lost = \<lparr>running = True, auto_reconnect = True, connected = False\<rparr>"

text \<open>The text of a frame as it arrives, without the blank line that ends it.\<close>

definition sample_frame :: string where
  "sample_frame =
     ''Event: DialBegin'' @ [CHR 0x0D, CHR 0x0A]
     @ ''DestChannel: SIP/1034-00000a1b'' @ [CHR 0x0D, CHR 0x0A]
     @ ''CallerIDNum: 0888123456'' @ [CHR 0x0D, CHR 0x0A]
     @ ''Linkedid: 17.5''"

section \<open>Properties of the phone normalizer and matcher\<close>

lemmas phone_eval = normalize_phone_def digits_only_def is_digit_def country_prefixes_def
  last_chars_def phone_matches_def lookup_match_def normalize_number_def numbers_match_def

lemma startswith_iff: "startswith s p \<longleftrightarrow> (\<exists>r. s = p @ r)"
  by (induction s p rule: startswith.induct) auto

text \<open>\<open>py_in\<close> is the substring relation.\<close>

lemma py_in_iff: "py_in needle hay \<longleftrightarrow> (\<exists>pre post. hay = pre @ needle @ post)"
proof (induction hay)
  case Nil
  then show ?case by auto
next
  case (Cons c cs)
  show ?case
  proof
    assume "py_in needle (c # cs)"
    then consider "startswith (c # cs) needle" | "py_in needle cs" by auto
    then show "\<exists>pre post. c # cs = pre @ needle @ post"
    proof cases
      case 1
      then obtain r where "c # cs = needle @ r" by (auto simp: startswith_iff)
      then have "c # cs = [] @ needle @ r" by simp
      then show ?thesis by blast
    next
      case 2
      then obtain pre post where "cs = pre @ needle @ post" using Cons.IH by auto
      then have "c # cs = (c # pre) @ needle @ post" by simp
      then show ?thesis by blast
    qed
  next
    assume "\<exists>pre post. c # cs = pre @ needle @ post"
    then obtain pre post where h: "c # cs = pre @ needle @ post" by auto
    show "py_in needle (c # cs)"
    proof (cases pre)
      case Nil
      then have "startswith (c # cs) needle" using h by (auto simp: startswith_iff)
      then show ?thesis by simp
    next
      case (Cons p pre')
      then have "cs = pre' @ needle @ post" using h by simp
      then have "py_in needle cs" using Cons.IH by blast
      then show ?thesis by simp
    qed
  qed
qed

text \<open>The loop with \<^verbatim>\<open>break\<close> strips the first prefix of the list that passes the test.\<close>

lemma strip_prefix_loop_find:
  "strip_prefix_loop ps d =
     (case find (\<lambda>p. startswith d p \<and> length d > 10) ps of
        None \<Rightarrow> d
      | Some p \<Rightarrow> drop (length p) d)"
  by (induction ps) auto

lemma normalize_phone_short:
  "length (digits_only raw) \<le> 10 \<Longrightarrow> normalize_phone raw = digits_only raw"
  by (simp add: normalize_phone_def last_chars_def Let_def)

lemma normalize_number_no_zero:
  "\<not> startswith (digits_only raw) ''0'' \<Longrightarrow> normalize_number raw = digits_only raw"
  by (cases "digits_only raw") (auto simp: normalize_number_def)

text \<open>Both matchers apply the same comparison; they differ in the normalizer before it.\<close>

lemma numbers_match_phone_matches:
  "numbers_match a b = phone_matches (normalize_number a) (normalize_number b)"
  by (auto simp: numbers_match_def phone_matches_def Let_def)

lemma phone_matches_sym: "phone_matches x y = phone_matches y x"
  by (auto simp: phone_matches_def)

text \<open>
  Claim C1, as stated: \<^verbatim>\<open>normalize("0888123456")\<close> returns \<^verbatim>\<open>"888123456"\<close>. It does not: the
  input has exactly 10 digits, and the leading zero is removed only from a digit string of
  more than 10 digits.
\<close>

theorem normalize_0888123456_not_stripped:
  "normalize_phone ''0888123456'' \<noteq> ''888123456''"
  by (simp add: phone_eval)

text \<open>
  Claim C1, amended: \<^verbatim>\<open>normalize("0888123456")\<close> returns the 10 digits \<^verbatim>\<open>"0888123456"\<close>
  unchanged.
\<close>

theorem normalize_0888123456_unchanged:
  "normalize_phone ''0888123456'' = ''0888123456''"
  by (simp add: phone_eval)

text \<open>
  Claim C2, as stated: for every raw input whose digit string has more than 10 digits,
  \<^verbatim>\<open>normalize\<close> removes a leading \<^verbatim>\<open>00\<close> (else a single leading \<^verbatim>\<open>0\<close>), strips at most one
  prefix, the first of the list that matches and that still leaves more than 10 digits,
  and returns the last 10 digits or all of them; and \<^verbatim>\<open>normalize("+359888123456")\<close> is
  \<^verbatim>\<open>"888123456"\<close>. It does not: the code tests the length before it cuts the prefix. The
  digit string \<^verbatim>\<open>35988812345\<close> has 11 digits and begins with \<^verbatim>\<open>359\<close>, which leaves 8; the
  code strips it and returns \<^verbatim>\<open>88812345\<close>, the rule as stated strips nothing and gives the
  last 10 digits \<^verbatim>\<open>5988812345\<close>. On the input of the claim's own example the rule as stated
  strips \<^verbatim>\<open>359\<close> neither, and gives \<^verbatim>\<open>9888123456\<close>.
\<close>

theorem normalize_long_differs_from_spec:
  "length (digits_only ''35988812345'') > 10
   \<and> normalize_phone ''35988812345'' = ''88812345''
   \<and> spec_normalize_long (digits_only ''35988812345'') = ''5988812345''
   \<and> normalize_phone ''35988812345'' \<noteq> spec_normalize_long (digits_only ''35988812345'')
   \<and> spec_normalize_long (digits_only ''+359888123456'') = ''9888123456''
   \<and> spec_normalize_long (digits_only ''+359888123456'') \<noteq> ''888123456''"
  by (simp add: phone_eval spec_normalize_long_def)

text \<open>
  Claim C2, amended: for every raw input whose digit string has more than 10 digits,
  \<^verbatim>\<open>normalize_phone\<close> removes a leading \<^verbatim>\<open>00\<close> (else a single leading \<^verbatim>\<open>0\<close>), strips at most
  one prefix, the first of the list in its order that matches while the digit string, after
  the removal of the zeros, has more than 10 digits (what is left after the prefix may have
  10 digits or fewer), and returns the last 10 digits if at least 10 remain, otherwise all
  of them; and \<^verbatim>\<open>normalize("+359888123456")\<close> is \<^verbatim>\<open>"888123456"\<close>.
\<close>

theorem normalize_long_follows_amended_rule:
  "(length (digits_only raw) > 10 \<longrightarrow>
      normalize_phone raw = amended_normalize_long (digits_only raw))
   \<and> normalize_phone ''+359888123456'' = ''888123456''"
proof
  show "length (digits_only raw) > 10 \<longrightarrow>
     normalize_phone raw = amended_normalize_long (digits_only raw)"
    by (simp add: normalize_phone_def amended_normalize_long_def strip_prefix_loop_find Let_def)
  show "normalize_phone ''+359888123456'' = ''888123456''"
    by (simp add: phone_eval)
qed

theorem normalize_long_follows_amended_rule_witness:
  "length (digits_only ''+359888123456'') > 10
   \<and> amended_normalize_long (digits_only ''+359888123456'') = ''888123456''"
proof -
  have d: "digits_only ''+359888123456'' = ''359888123456''"
    by (simp add: digits_only_def is_digit_def)
  have "length (digits_only ''+359888123456'') > 10" by (simp add: d)
  moreover from this normalize_long_follows_amended_rule [of "''+359888123456''"]
  have "amended_normalize_long (digits_only ''+359888123456'') = ''888123456''" by metis
  ultimately show ?thesis by simp
qed

text \<open>
  Claim C3, as stated: \<^verbatim>\<open>match(a, b)\<close> is true if and only if the rule of the spec holds of
  the two normalized values. It is not: the empty string is a substring of every string, so
  the rule holds of \<^verbatim>\<open>""\<close> and \<^verbatim>\<open>"888123456"\<close>, and the code returns false as soon as one
  normalized value is empty.
\<close>

theorem match_empty_differs_from_spec:
  "lookup_match '''' ''888123456'' \<noteq> spec_match '''' ''888123456''"
  by (simp add: phone_eval spec_match_def)

text \<open>
  Claim C3, amended: \<^verbatim>\<open>match(a, b)\<close> normalizes both inputs and is true if and only if both
  normalized values are non-empty and the rule of the spec holds of them (one is a
  substring of the other, or both have at least 9 digits and the same last 9 digits);
  \<^verbatim>\<open>match("0888123456", "+359888123456")\<close> is true and \<^verbatim>\<open>match("", "888123456")\<close> is false.
\<close>

theorem match_iff_nonempty_and_spec:
  "lookup_match a b =
     (normalize_phone a \<noteq> [] \<and> normalize_phone b \<noteq> [] \<and> spec_match a b)
   \<and> lookup_match ''0888123456'' ''+359888123456'' = True
   \<and> lookup_match '''' ''888123456'' = False"
proof (intro conjI)
  show "lookup_match a b =
     (normalize_phone a \<noteq> [] \<and> normalize_phone b \<noteq> [] \<and> spec_match a b)"
    by (auto simp: lookup_match_def phone_matches_def spec_match_def Let_def)
  show "lookup_match ''0888123456'' ''+359888123456'' = True"
    by (simp add: phone_eval)
  show "lookup_match '''' ''888123456'' = False"
    by (simp add: phone_eval)
qed

text \<open>
  Claim C4, as stated: the matcher of the AMI side and the matcher of the order-lookup
  layer return the same boolean for all pairs of strings. They do not: for \<^verbatim>\<open>"0888123456"\<close>
  and \<^verbatim>\<open>"08881234567"\<close> the AMI side compares \<^verbatim>\<open>"888123456"\<close> with \<^verbatim>\<open>"8881234567"\<close> and
  answers true, the lookup side compares \<^verbatim>\<open>"0888123456"\<close> with \<^verbatim>\<open>"8881234567"\<close> and answers
  false.
\<close>

theorem matchers_differ:
  "numbers_match ''0888123456'' ''08881234567'' \<noteq> lookup_match ''0888123456'' ''08881234567''"
  by (simp add: phone_eval)

text \<open>
  Claim C4, amended: the two matchers return the same boolean for every pair of inputs
  whose digit strings have at most 10 digits and do not begin with \<^verbatim>\<open>0\<close>.
\<close>

theorem matchers_agree_on_short_numbers:
  assumes "length (digits_only a) \<le> 10" and "length (digits_only b) \<le> 10"
    and "\<not> startswith (digits_only a) ''0''" and "\<not> startswith (digits_only b) ''0''"
  shows "numbers_match a b = lookup_match a b"
  using assms
  by (simp add: numbers_match_phone_matches lookup_match_def normalize_phone_short
      normalize_number_no_zero)

theorem matchers_agree_on_short_numbers_witness:
  "length (digits_only ''888123456'') \<le> 10 \<and> length (digits_only ''888-123-456'') \<le> 10
   \<and> \<not> startswith (digits_only ''888123456'') ''0''
   \<and> \<not> startswith (digits_only ''888-123-456'') ''0''
   \<and> numbers_match ''888123456'' ''888-123-456'' = lookup_match ''888123456'' ''888-123-456''
   \<and> lookup_match ''888123456'' ''888-123-456''"
  using matchers_agree_on_short_numbers [of "''888123456''" "''888-123-456''"]
  by (simp add: phone_eval)

text \<open>
  Claim C10: phone matching is symmetric, for the matcher of the lookup side and for the
  matcher of the AMI side.
\<close>

theorem matching_symmetric:
  "lookup_match a b = lookup_match b a \<and> numbers_match a b = numbers_match b a"
  by (simp add: lookup_match_def numbers_match_phone_matches
      phone_matches_sym [of "normalize_phone a"] phone_matches_sym [of "normalize_number a"])


section \<open>Properties of the webhook listener\<close>

text \<open>
  Claim C5, as stated: a POST to \<^verbatim>\<open>/incoming-call\<close> with an empty body is answered with
  400. It is not: parsing the empty body raises, the \<^verbatim>\<open>except\<close> branch answers with 500.
\<close>

theorem empty_body_is_answered_500:
  "status (fst (do_POST \<lparr>path = ''/incoming-call'', body = empty_body\<rparr>)) = 500
   \<and> status (fst (do_POST \<lparr>path = ''/incoming-call'', body = empty_body\<rparr>)) \<noteq> 400"
  by (simp add: do_POST_def empty_body_def)

text \<open>
  Claim C5, amended: for every POST to \<^verbatim>\<open>/incoming-call\<close>, if the body is a JSON object with
  a non-empty string under \<^verbatim>\<open>phone\<close>, the answer is 200 \<^verbatim>\<open>{"status":"ok"}\<close> and exactly one
  notification is emitted, with the received value as its phone; if the body is a JSON
  object whose \<^verbatim>\<open>phone\<close> is missing or the empty string, the answer is 400
  \<^verbatim>\<open>{"error":"phone required"}\<close> and nothing is emitted; if the body is empty, the answer is
  500 and nothing is emitted.
\<close>

theorem incoming_call_responses:
  assumes "path req = ''/incoming-call''"
  shows "(\<forall>kvs p. body req = Parsed (JObj kvs) \<and> map_of kvs ''phone'' = Some (JStr p) \<and> p \<noteq> [] \<longrightarrow>
            do_POST req = (\<lparr>status = 200, content = JsonReply [(''status'', ''ok'')]\<rparr>,
                           [\<lparr>phone = p, metadata = [''source'' \<mapsto> ''android'']\<rparr>]))
       \<and> (\<forall>kvs. body req = Parsed (JObj kvs)
              \<and> (map_of kvs ''phone'' = None \<or> map_of kvs ''phone'' = Some (JStr [])) \<longrightarrow>
            do_POST req
              = (\<lparr>status = 400, content = JsonReply [(''error'', ''phone required'')]\<rparr>, []))
       \<and> (body req = empty_body \<longrightarrow>
            do_POST req = (\<lparr>status = 500, content = ErrorReply BodyError\<rparr>, []))"
  using assms by (auto simp: do_POST_def get_phone_def empty_body_def)

theorem incoming_call_responses_witness:
  "do_POST \<lparr>path = ''/incoming-call'', body = Parsed (JObj [(''phone'', JStr ''+359888000000'')])\<rparr>
     = (\<lparr>status = 200, content = JsonReply [(''status'', ''ok'')]\<rparr>,
        [\<lparr>phone = ''+359888000000'', metadata = [''source'' \<mapsto> ''android'']\<rparr>])
   \<and> do_POST \<lparr>path = ''/incoming-call'', body = Parsed (JObj [])\<rparr>
     = (\<lparr>status = 400, content = JsonReply [(''error'', ''phone required'')]\<rparr>, [])
   \<and> do_POST \<lparr>path = ''/incoming-call'', body = Parsed (JObj [(''phone'', JStr '''')])\<rparr>
     = (\<lparr>status = 400, content = JsonReply [(''error'', ''phone required'')]\<rparr>, [])
   \<and> do_POST \<lparr>path = ''/incoming-call'', body = empty_body\<rparr>
     = (\<lparr>status = 500, content = ErrorReply BodyError\<rparr>, [])"
  using
    incoming_call_responses
      [of "\<lparr>path = ''/incoming-call'', body = Parsed (JObj [(''phone'', JStr ''+359888000000'')])\<rparr>"]
    incoming_call_responses [of "\<lparr>path = ''/incoming-call'', body = Parsed (JObj [])\<rparr>"]
    incoming_call_responses
      [of "\<lparr>path = ''/incoming-call'', body = Parsed (JObj [(''phone'', JStr '''')])\<rparr>"]
    incoming_call_responses [of "\<lparr>path = ''/incoming-call'', body = empty_body\<rparr>"]
  by simp

section \<open>Properties of the reconnect loop\<close>

text \<open>The delay the loop computes is the one of the spec.\<close>

lemma backoff_eq: "min (reconnect_delay * 2 ^ k) max_delay = backoff k"
  by (simp add: reconnect_delay_def max_delay_def backoff_def)

text \<open>
  A run of \<open>n\<close> failed attempts, entered with the counter at \<open>k\<close>, sleeps the delays
  numbered \<open>k\<close> to \<open>k + n - 1\<close> and goes on with the counter at \<open>k + n\<close>.
\<close>

lemma reconnect_loop_failures:
  assumes "running s" "auto_reconnect s" "\<not> connected s"
  shows "reconnect_loop s k (replicate n failed_attempt @ rest) =
     (case reconnect_loop s (k + n) rest of
        (s2, delays, r) \<Rightarrow> (s2, map backoff [k..<k + n] @ delays, r))"
  using assms
proof (induction n arbitrary: k)
  case 0
  then show ?case by simp
next
  case (Suc n)
  have "reconnect_loop s k (replicate (Suc n) failed_attempt @ rest) =
     (case reconnect_loop s (Suc k) (replicate n failed_attempt @ rest) of
        (s2, delays, r) \<Rightarrow> (s2, backoff k # delays, r))"
    using Suc.prems by (simp add: failed_attempt_def backoff_eq)
  also have "\<dots> = (case reconnect_loop s (Suc k + n) rest of
        (s2, delays, r) \<Rightarrow> (s2, backoff k # map backoff [Suc k..<Suc k + n] @ delays, r))"
    using Suc.IH [OF Suc.prems, of "Suc k"] by (simp split: prod.splits)
  also have "\<dots> = (case reconnect_loop s (k + Suc n) rest of
        (s2, delays, r) \<Rightarrow> (s2, map backoff [k..<k + Suc n] @ delays, r))"
  proof -
    have "[k..<k + Suc n] = k # [Suc k..<Suc k + n]" by (simp add: upt_conv_Cons)
    then show ?thesis by simp
  qed
  finally show ?case .
qed

lemma backoff_capped: "backoff (4 + i) = 60"
proof -
  have "(2::nat) ^ 4 \<le> 2 ^ (4 + i)" by (intro power_increasing) auto
  then show ?thesis by (simp add: backoff_def)
qed

text \<open>
  Claim C8: in a session that is listening and not connected, as long as the attempts fail
  the loop sleeps \<open>min (5 * 2 ^ attempt) 60\<close> seconds before each of them and keeps
  running; the delays are 5, 10, 20, 40 and then 60 for ever; when an attempt succeeds the
  loop returns true, and after the connection is lost again the next run of attempts starts
  once more with the delay numbered zero.
\<close>

theorem reconnect_backoff:
  assumes "running s" "auto_reconnect s" "\<not> connected s"
  shows "reconnect s (replicate n failed_attempt) = (s, map backoff [0..<n], None)
    \<and> reconnect s (replicate n failed_attempt @ [successful_attempt])
        = (s\<lparr>connected := True\<rparr>, map backoff [0..<Suc n], Some True)
    \<and> reconnect (s\<lparr>connected := True\<rparr>\<lparr>connected := False\<rparr>)
          (replicate m failed_attempt @ [successful_attempt])
        = (s\<lparr>connected := True\<rparr>, map backoff [0..<Suc m], Some True)
    \<and> map backoff [0..<7] = [5, 10, 20, 40, 60, 60, 60]
    \<and> backoff (4 + i) = 60"
proof (intro conjI)
  show "reconnect s (replicate n failed_attempt) = (s, map backoff [0..<n], None)"
    using reconnect_loop_failures [OF assms, of 0 n "[]"] assms by (simp add: reconnect_def)
  show "reconnect s (replicate n failed_attempt @ [successful_attempt])
           = (s\<lparr>connected := True\<rparr>, map backoff [0..<Suc n], Some True)"
    using reconnect_loop_failures [OF assms, of 0 n "[successful_attempt]"] assms
    by (simp add: reconnect_def successful_attempt_def backoff_eq)
  show "reconnect (s\<lparr>connected := True\<rparr>\<lparr>connected := False\<rparr>)
          (replicate m failed_attempt @ [successful_attempt])
           = (s\<lparr>connected := True\<rparr>, map backoff [0..<Suc m], Some True)"
    using reconnect_loop_failures [of "s\<lparr>connected := False\<rparr>" 0 m "[successful_attempt]"] assms
    by (simp add: reconnect_def successful_attempt_def backoff_eq)
  show "map backoff [0..<7] = [5, 10, 20, 40, 60, 60, 60]"
    by (simp add: backoff_def upt_rec)
  show "backoff (4 + i) = 60"
    by (rule backoff_capped)
qed

theorem reconnect_backoff_witness:
  "running lost \<and> auto_reconnect lost \<and> \<not> connected lost
   \<and> reconnect lost (replicate 6 failed_attempt @ [successful_attempt])
      = (\<lparr>running = True, auto_reconnect = True, connected = True\<rparr>,
         [5, 10, 20, 40, 60, 60, 60], Some True)
   \<and> reconnect lost (replicate 2 failed_attempt) = (lost, [5, 10], None)"
proof -
  have a: "running lost" "auto_reconnect lost" "\<not> connected lost"
    by (simp_all add: lost_def)
  have b: "map backoff [0..<2] = [5, 10]"
    by (simp add: backoff_def upt_rec)
  from reconnect_backoff [OF a, of 6 0 0] reconnect_backoff [OF a, of 2 0 0] a b
  show ?thesis by (simp add: lost_def)
qed

section \<open>Properties of the call correlator\<close>

lemmas event_eval = find_caller_def method_dial_begin_def method_dial_state_def
  method_newstate_def get_field_def base_name_def upper_def upper_char_def watched_def
  pick_caller_def
  is_set_def

lemmas scenario_eval = dial_begin_def dial_state_def newstate_def event_eval
  process_record_def linked_id_def call_key_def add_call_def is_placeholder_def

lemma watching_eq: "watching = \<lparr>watch_channel = watched, processed_calls = []\<rparr>"
  by (simp add: watching_def ami_init_def watched_def)

text \<open>
  The record built from the text of a frame, and \<^verbatim>\<open>_process_event\<close> on that text: the
  properties below are stated for records and hold for every text through its record.
\<close>

lemma parse_sample_frame: "parse_event sample_frame = dial_begin ''17.5'' ''0888123456''"
  by (rule ext)
    (simp add: parse_event_def sample_frame_def strip_def is_space_def add_line_def
      dial_begin_def)

lemma process_event_sample_frame:
  "process_event order st sample_frame
     = process_record order st (dial_begin ''17.5'' ''0888123456'')"
  by (simp add: process_event_def parse_sample_frame)

text \<open>The test of the source picks exactly the values that are no placeholders.\<close>

lemma pick_caller_eq: "pick_caller v = (if is_placeholder v then None else Some v)"
  by (auto simp: pick_caller_def is_placeholder_def)

lemma is_set_pick: "is_set (pick_caller v) \<longleftrightarrow> \<not> is_placeholder v"
  by (auto simp: pick_caller_def is_placeholder_def is_set_def)

lemma placeholder_empty: "is_placeholder []"
  by (simp add: is_placeholder_def)

lemma dial_begin_no_placeholder:
  "is_placeholder (get_field ev ''CallerIDNum'' '''') \<Longrightarrow>
     snd (method_dial_begin w ev am) = snd am"
  by (simp add: method_dial_begin_def Let_def is_set_pick)

lemma dial_state_no_placeholder:
  "is_placeholder (get_field ev ''CallerIDNum'' '''') \<Longrightarrow>
     snd (method_dial_state w ev am) = snd am"
  by (simp add: method_dial_state_def Let_def is_set_pick)

lemma newstate_no_placeholder:
  "is_placeholder (get_field ev ''CallerIDNum'' '''') \<Longrightarrow>
   is_placeholder (get_field ev ''ConnectedLineNum'' '''') \<Longrightarrow>
     snd (method_newstate w ev am) = snd am"
  by (simp add: method_newstate_def Let_def is_set_pick)

text \<open>
  Each method leaves the pair as it found it, or accepts a caller that is no placeholder,
  or leaves no caller and no match.
\<close>

lemma dial_begin_accepts:
  "method_dial_begin w ev am = am
   \<or> (\<exists>c. method_dial_begin w ev am = (Some c, True) \<and> \<not> is_placeholder c
          \<and> c = get_field ev ''CallerIDNum'' '''')
   \<or> method_dial_begin w ev am = (None, snd am)"
  using placeholder_empty
  by (auto simp: method_dial_begin_def Let_def pick_caller_eq is_set_def)

lemma dial_state_accepts:
  "method_dial_state w ev am = am
   \<or> (\<exists>c. method_dial_state w ev am = (Some c, True) \<and> \<not> is_placeholder c
          \<and> c = get_field ev ''CallerIDNum'' '''')
   \<or> method_dial_state w ev am = (None, False)"
  using placeholder_empty
  by (auto simp: method_dial_state_def Let_def pick_caller_eq is_set_def)

lemma newstate_accepts:
  "method_newstate w ev am = am
   \<or> (\<exists>c. method_newstate w ev am = (Some c, True) \<and> \<not> is_placeholder c
          \<and> (c = get_field ev ''ConnectedLineNum'' ''''
              \<or> c = get_field ev ''CallerIDNum'' ''''))
   \<or> method_newstate w ev am = (None, False)"
  using placeholder_empty
  by (auto simp: method_newstate_def Let_def pick_caller_eq is_set_def)

lemma dial_begin_real:
  "snd (method_dial_begin w ev (None, False)) \<Longrightarrow>
     \<exists>c. fst (method_dial_begin w ev (None, False)) = Some c \<and> \<not> is_placeholder c"
  using dial_begin_accepts [of w ev "(None, False)"] by auto

lemma dial_state_real:
  "snd (method_dial_state w ev (None, False)) \<Longrightarrow>
     \<exists>c. fst (method_dial_state w ev (None, False)) = Some c \<and> \<not> is_placeholder c"
  using dial_state_accepts [of w ev "(None, False)"] by auto

lemma newstate_real:
  "snd (method_newstate w ev (None, False)) \<Longrightarrow>
     \<exists>c. fst (method_newstate w ev (None, False)) = Some c \<and> \<not> is_placeholder c"
  using newstate_accepts [of w ev "(None, False)"] by auto

lemma find_caller_real:
  assumes "find_caller w ev = Some c"
  shows "\<not> is_placeholder c"
proof -
  define a1 where "a1 = method_dial_begin w ev (None, False)"
  define a2 where "a2 = method_dial_state w ev a1"
  define a3 where "a3 = method_newstate w ev a2"
  have r1: "a1 = (None, False) \<or> (\<exists>c. a1 = (Some c, True) \<and> \<not> is_placeholder c)"
    using dial_begin_accepts [of w ev "(None, False)"] by (auto simp: a1_def)
  have r2: "a2 = (None, False) \<or> (\<exists>c. a2 = (Some c, True) \<and> \<not> is_placeholder c)"
    using dial_state_accepts [of w ev a1] r1 by (auto simp: a2_def)
  have r3: "a3 = (None, False) \<or> (\<exists>c. a3 = (Some c, True) \<and> \<not> is_placeholder c)"
    using newstate_accepts [of w ev a2] r2 by (auto simp: a3_def)
  have "snd a3" and "fst a3 = Some c"
    using assms by (auto simp: find_caller_def Let_def a1_def a2_def a3_def split: if_splits)
  then show ?thesis using r3 by auto
qed

lemma process_record_out:
  "n \<in> set (snd (process_record order st ev)) \<Longrightarrow> \<not> is_placeholder (phone n)"
  by (auto simp: process_record_def Let_def split: option.splits if_splits
      dest: find_caller_real)

text \<open>
  Claim C9: for every record, each of the three methods (dial-begin, dial-state, newstate)
  accepts only a caller that is none of the placeholders (the empty string, \<^verbatim>\<open><unknown>\<close>,
  \<^verbatim>\<open>s\<close>, \<^verbatim>\<open>anonymous\<close>); a record whose caller-id is a placeholder does not match by
  dial-begin or dial-state, and does not match by newstate when its connected-line number
  is a placeholder too; the caller a record yields and the phone of every notification it
  produces are no placeholders.
\<close>

theorem placeholders_never_accepted:
  "(snd (method_dial_begin w ev (None, False)) \<longrightarrow>
      (\<exists>c. fst (method_dial_begin w ev (None, False)) = Some c \<and> \<not> is_placeholder c))
   \<and> (snd (method_dial_state w ev (None, False)) \<longrightarrow>
      (\<exists>c. fst (method_dial_state w ev (None, False)) = Some c \<and> \<not> is_placeholder c))
   \<and> (snd (method_newstate w ev (None, False)) \<longrightarrow>
      (\<exists>c. fst (method_newstate w ev (None, False)) = Some c \<and> \<not> is_placeholder c))
   \<and> (is_placeholder (get_field ev ''CallerIDNum'' '''') \<longrightarrow>
        \<not> snd (method_dial_begin w ev (None, False))
        \<and> \<not> snd (method_dial_state w ev (None, False)))
   \<and> (is_placeholder (get_field ev ''ConnectedLineNum'' '''')
        \<and> is_placeholder (get_field ev ''CallerIDNum'' '''') \<longrightarrow>
        \<not> snd (method_newstate w ev (None, False)))
   \<and> (\<forall>c. find_caller w ev = Some c \<longrightarrow> \<not> is_placeholder c)
   \<and> (\<forall>n \<in> set (snd (process_record order st ev)). \<not> is_placeholder (phone n))"
  using dial_begin_real [of w ev] dial_state_real [of w ev] newstate_real [of w ev]
    dial_begin_no_placeholder [of ev w "(None, False)"]
    dial_state_no_placeholder [of ev w "(None, False)"]
    newstate_no_placeholder [of ev w "(None, False)"]
    find_caller_real [of w ev] process_record_out [of _ order st ev]
  by simp

theorem placeholders_never_accepted_witness:
  "fst (method_dial_begin watched (dial_begin ''17.5'' ''0888123456'') (None, False))
     = Some ''0888123456''
   \<and> fst (method_dial_state watched (dial_state ''17.5'' ''0888123456'') (None, False))
     = Some ''0888123456''
   \<and> fst (method_newstate watched (newstate ''17.5'' ''<unknown>'' ''0888123456'')
         (None, False))
     = Some ''0888123456''
   \<and> \<not> is_placeholder ''0888123456''
   \<and> is_placeholder ''<unknown>''
   \<and> \<not> snd (method_dial_begin watched (dial_begin ''17.5'' ''<unknown>'') (None, False))
   \<and> \<not> snd (method_dial_state watched (dial_state ''17.5'' ''s'') (None, False))
   \<and> \<not> snd (method_newstate watched (newstate ''17.5'' ''anonymous'' '''') (None, False))
   \<and> find_caller watched (dial_begin ''17.5'' ''0888123456'') = Some ''0888123456''
   \<and> map phone (snd (process_record id watching (dial_begin ''17.5'' ''0888123456'')))
        = [''0888123456'']
   \<and> snd (process_record id watching (dial_begin ''17.5'' ''<unknown>'')) = []"
  using
    placeholders_never_accepted
      [of watched "dial_begin ''17.5'' ''0888123456''" id watching]
    placeholders_never_accepted
      [of watched "dial_state ''17.5'' ''0888123456''" id watching]
    placeholders_never_accepted
      [of watched "newstate ''17.5'' ''<unknown>'' ''0888123456''" id watching]
    placeholders_never_accepted
      [of watched "dial_begin ''17.5'' ''<unknown>''" id watching]
    placeholders_never_accepted
      [of watched "dial_state ''17.5'' ''s''" id watching]
    placeholders_never_accepted
      [of watched "newstate ''17.5'' ''anonymous'' ''''" id watching]
  by (simp add: scenario_eval watching_eq)

section \<open>Properties of the dedup cache\<close>

lemma find_caller_nth_call: "find_caller watched (nth_call i) = Some ''0888123456''"
  by (simp add: event_eval nth_call_def dial_begin_def)

lemma linked_id_nth_call: "linked_id (nth_call i) = replicate (Suc i) CHR ''7''"
  by (simp add: linked_id_def get_field_def nth_call_def dial_begin_def)

lemma nth_key_inj: "nth_key i = nth_key j \<longleftrightarrow> i = j"
proof
  assume "nth_key i = nth_key j"
  then have "length (nth_key i) = length (nth_key j)" by simp
  then show "i = j" by (simp add: nth_key_def call_key_def)
qed simp

lemma process_record_nth_call:
  "watch_channel st = watched \<Longrightarrow>
   process_record order st (nth_call i) =
     (if nth_key i \<notin> set (processed_calls st) then
        (st\<lparr>processed_calls := add_call order (processed_calls st) (nth_key i)\<rparr>,
         [nth_notification i])
      else (st, []))"
  by (simp add: process_record_def find_caller_nth_call linked_id_nth_call nth_key_def
      nth_notification_def)

lemma process_records_append:
  "process_records order st (xs @ ys) =
     (case process_records order st xs of
        (st1, out1) \<Rightarrow>
          (case process_records order st1 ys of
             (st2, out2) \<Rightarrow> (st2, out1 @ out2)))"
  by (induction xs arbitrary: st) (auto split: prod.splits)

lemma process_records_snoc:
  "process_records order st (xs @ [e]) =
     (case process_records order st xs of
        (st1, out1) \<Rightarrow>
          (case process_record order st1 e of
             (st2, out2) \<Rightarrow> (st2, out1 @ out2)))"
  by (simp add: process_records_append split: prod.splits)

text \<open>
  Calls of the family that are new to the cache, as long as the cache does not exceed 200
  entries: each is notified and its key is appended.
\<close>

lemma process_records_fresh:
  "watch_channel st = watched \<Longrightarrow> distinct js \<Longrightarrow>
   (\<forall>i\<in>set js. nth_key i \<notin> set (processed_calls st)) \<Longrightarrow>
   length (processed_calls st) + length js \<le> 200 \<Longrightarrow>
   process_records order st (map nth_call js) =
     (st\<lparr>processed_calls := processed_calls st @ map nth_key js\<rparr>, map nth_notification js)"
proof (induction js arbitrary: st)
  case Nil
  then show ?case by simp
next
  case (Cons j js)
  let ?st1 = "st\<lparr>processed_calls := processed_calls st @ [nth_key j]\<rparr>"
  have step: "process_record order st (nth_call j) = (?st1, [nth_notification j])"
    using Cons.prems by (simp add: process_record_nth_call add_call_def)
  have "process_records order ?st1 (map nth_call js) =
     (?st1\<lparr>processed_calls := processed_calls ?st1 @ map nth_key js\<rparr>, map nth_notification js)"
    using Cons.prems by (intro Cons.IH) (auto simp: nth_key_inj)
  then show ?case using step by simp
qed

lemma first_calls:
  "n \<le> 200 \<Longrightarrow>
   process_records order watching (map nth_call [0..<n]) =
     (watching\<lparr>processed_calls := map nth_key [0..<n]\<rparr>, map nth_notification [0..<n])"
  using process_records_fresh [of watching "[0..<n]" order] by (simp add: watching_eq)

text \<open>
  The 201st call makes the cache exceed 200 entries: what is kept are the last 100 keys in
  the order of enumeration.
\<close>

lemma overflowing_call:
  "process_records order watching (map nth_call [0..<201]) =
     (watching\<lparr>processed_calls := last_items 100 (order (map nth_key [0..<201]))\<rparr>,
      map nth_notification [0..<201])"
proof -
  have u: "[0..<201] = [0..<200] @ [200::nat]"
    using upt_Suc_append [of 0 200] by simp
  have f: "nth_key 200 \<notin> set (map nth_key [0..<200])"
    by (auto simp: nth_key_inj)
  have w: "watch_channel (watching\<lparr>processed_calls := map nth_key [0..<200]\<rparr>) = watched"
    by (simp add: watching_eq)
  have "process_records order watching (map nth_call [0..<200] @ [nth_call 200]) =
     (watching\<lparr>processed_calls := last_items 100 (order (map nth_key [0..<200] @ [nth_key 200]))\<rparr>,
      map nth_notification [0..<200] @ [nth_notification 200])"
    using f
    by (simp add: process_records_snoc first_calls process_record_nth_call [OF w] add_call_def
        del: upt_rec_numeral upt_Suc)
  then show ?thesis unfolding u by simp
qed

lemma process_record_watch:
  "watch_channel (fst (process_record order st ev)) = watch_channel st"
  by (simp add: process_record_def Let_def split: option.splits)

text \<open>
  A record appends one key to the cache for each notification it emits. As long as the
  entries of the cache and the notifications emitted together do not exceed 200, nothing
  is removed from the cache.
\<close>

lemma process_record_no_trim:
  "length (processed_calls st) + length (snd (process_record order st ev)) \<le> 200 \<Longrightarrow>
   set (processed_calls st) \<subseteq> set (processed_calls (fst (process_record order st ev)))
   \<and> length (processed_calls (fst (process_record order st ev)))
       = length (processed_calls st) + length (snd (process_record order st ev))"
  by (auto simp: process_record_def add_call_def Let_def split: option.splits)

lemma process_records_emitted:
  "length (snd (process_records order st (ev # evs)))
     = length (snd (process_record order st ev))
       + length (snd (process_records order (fst (process_record order st ev)) evs))"
  by (simp split: prod.splits)

lemma process_records_no_trim:
  "length (processed_calls st) + length (snd (process_records order st evs)) \<le> 200 \<Longrightarrow>
   set (processed_calls st) \<subseteq> set (processed_calls (fst (process_records order st evs)))
   \<and> length (processed_calls (fst (process_records order st evs)))
       = length (processed_calls st) + length (snd (process_records order st evs))
   \<and> watch_channel (fst (process_records order st evs)) = watch_channel st"
proof (induction evs arbitrary: st)
  case Nil
  then show ?case by simp
next
  case (Cons ev evs)
  let ?st1 = "fst (process_record order st ev)"
  let ?out1 = "snd (process_record order st ev)"
  let ?out2 = "snd (process_records order ?st1 evs)"
  have sum: "length (processed_calls st) + (length ?out1 + length ?out2) \<le> 200"
    using Cons.prems by (simp only: process_records_emitted)
  then have "length (processed_calls st) + length ?out1 \<le> 200" by simp
  from process_record_no_trim [OF this]
  have a: "set (processed_calls st) \<subseteq> set (processed_calls ?st1)"
    and b: "length (processed_calls ?st1) = length (processed_calls st) + length ?out1"
    by auto
  have c: "watch_channel ?st1 = watch_channel st" by (rule process_record_watch)
  have "length (processed_calls ?st1) + length ?out2 \<le> 200" using b sum by simp
  from Cons.IH [OF this]
  have d: "set (processed_calls ?st1) \<subseteq> set (processed_calls (fst (process_records order ?st1 evs)))"
    and e: "length (processed_calls (fst (process_records order ?st1 evs)))
       = length (processed_calls ?st1) + length ?out2"
    and f: "watch_channel (fst (process_records order ?st1 evs)) = watch_channel ?st1"
    by auto
  have g: "fst (process_records order st (ev # evs)) = fst (process_records order ?st1 evs)"
    by (simp split: prod.splits)
  show ?case
    unfolding g using a b c d e f by (simp only: process_records_emitted) auto
qed

text \<open>
  The cache never holds more than 200 keys, whatever the order of enumeration, as long as
  enumerating does not change the number of members.
\<close>

lemma add_call_bounded:
  "(\<And>xs. length (order xs) = length xs) \<Longrightarrow> length calls \<le> 200 \<Longrightarrow>
     length (add_call order calls key) \<le> 200"
  by (simp add: add_call_def last_items_def Let_def)

lemma process_record_bounded:
  "(\<And>xs. length (order xs) = length xs) \<Longrightarrow> length (processed_calls st) \<le> 200 \<Longrightarrow>
     length (processed_calls (fst (process_record order st ev))) \<le> 200"
  by (simp add: process_record_def Let_def add_call_bounded split: option.splits)

lemma process_records_bounded:
  "(\<And>xs. length (order xs) = length xs) \<Longrightarrow> length (processed_calls st) \<le> 200 \<Longrightarrow>
     length (processed_calls (fst (process_records order st evs))) \<le> 200"
proof (induction evs arbitrary: st)
  case Nil
  then show ?case by simp
next
  case (Cons ev evs)
  obtain st1 out1 where s1: "process_record order st ev = (st1, out1)" by fastforce
  have "length (processed_calls st1) \<le> 200"
    using process_record_bounded [OF Cons.prems(1,2), of ev] s1 by simp
  from Cons.IH [OF Cons.prems(1) this] show ?case
    by (auto simp: s1 split: prod.splits)
qed

text \<open>
  Whatever the order of enumeration, one of the first 201 calls has left the cache after
  the trim, and a further record of that call is notified a second time.
\<close>

lemma some_call_is_forgotten:
  assumes "\<And>xs. length (order xs) = length xs"
  shows "\<exists>i<201. snd (process_records order watching (map nth_call [0..<201] @ [nth_call i]))
            = map nth_notification [0..<201] @ [nth_notification i]"
proof -
  define cache where "cache = last_items 100 (order (map nth_key [0..<201]))"
  have len: "length cache \<le> 100"
    by (simp add: cache_def last_items_def assms del: upt_rec_numeral upt_Suc)
  have "\<exists>i<201. nth_key i \<notin> set cache"
  proof (rule ccontr)
    assume "\<not> (\<exists>i<201. nth_key i \<notin> set cache)"
    then have "nth_key ` {0..<201} \<subseteq> set cache" by auto
    then have "card (nth_key ` {0..<201}) \<le> card (set cache)"
      by (intro card_mono) auto
    moreover have "card (nth_key ` {0..<201}) = 201"
      by (subst card_image) (auto simp: inj_on_def nth_key_inj)
    moreover have "card (set cache) \<le> length cache" by (rule card_length)
    ultimately show False using len by simp
  qed
  then obtain i where i: "i < 201" "nth_key i \<notin> set cache" by blast
  have w: "watch_channel (watching\<lparr>processed_calls := cache\<rparr>) = watched"
    by (simp add: watching_eq)
  have "snd (process_records order watching (map nth_call [0..<201] @ [nth_call i]))
            = map nth_notification [0..<201] @ [nth_notification i]"
    using i(2)
    by (simp add: process_records_snoc overflowing_call cache_def [symmetric]
        process_record_nth_call [OF w] del: upt_rec_numeral upt_Suc)
  with i(1) show ?thesis by blast
qed

text \<open>
  Claim C6, as stated: any two records with the same linked-call identifier and caller that
  both satisfy a heuristic produce exactly one notification. They do not when the cache
  has been trimmed between them: here the first record of the call \<^verbatim>\<open>7\<close> is followed by
  records of 200 other calls and then by a second record of the call \<^verbatim>\<open>7\<close>; the
  enumeration keeps the order of insertion, so that the trim keeps the most recent 100
  keys; both records of the call \<^verbatim>\<open>7\<close> are notified.
\<close>

theorem same_call_notified_twice:
  "find_caller (watch_channel watching) (nth_call 0) = Some ''0888123456''
   \<and> snd (process_records id watching (map nth_call [0..<201] @ [nth_call 0]))
       = map nth_notification [0..<201] @ [nth_notification 0]"
proof
  show "find_caller (watch_channel watching) (nth_call 0) = Some ''0888123456''"
    by (simp add: watching_eq find_caller_nth_call)
  have l: "last_items 100 (map nth_key [0..<201]) = map nth_key [101..<201]"
    by (simp add: last_items_def drop_map del: upt_rec_numeral upt_Suc)
  have g: "nth_key 0 \<notin> set (map nth_key [101..<201])"
    by (auto simp: nth_key_inj)
  have w: "watch_channel (watching\<lparr>processed_calls := map nth_key [101..<201]\<rparr>) = watched"
    by (simp add: watching_eq)
  show "snd (process_records id watching (map nth_call [0..<201] @ [nth_call 0]))
       = map nth_notification [0..<201] @ [nth_notification 0]"
    using g
    by (simp add: process_records_snoc overflowing_call l process_record_nth_call [OF w]
        del: upt_rec_numeral upt_Suc)
qed

text \<open>
  Claim C6, amended: for any two records with the same linked-call identifier (the record's
  own unique identifier when absent) and the same caller that both satisfy a heuristic,
  if the key of the call is not in the cache when the first record is processed and the
  cache does not exceed 200 entries up to the second record (so that it is not trimmed
  between them), exactly one notification is emitted for the two: the first record inserts
  the key and emits, the second is suppressed. Each notification emitted adds one entry,
  so the entries the cache has reached before the second record are those it had before
  the first plus the notifications emitted for the first record and the records between
  the two, however many records there are between them.
\<close>

theorem same_call_notified_once:
  assumes "find_caller (watch_channel st) e1 = Some c"
    and "find_caller (watch_channel st) e2 = Some c"
    and "linked_id e1 = linked_id e2"
    and "call_key (linked_id e1) c \<notin> set (processed_calls st)"
    and "length (processed_calls st)
           + length (snd (process_records order st (e1 # between))) \<le> 200"
  shows "snd (process_record order st e1) = [\<lparr>phone = c, metadata = e1\<rparr>]
    \<and> call_key (linked_id e1) c \<in> set (processed_calls (fst (process_record order st e1)))
    \<and> snd (process_record order
             (fst (process_records order (fst (process_record order st e1)) between)) e2) = []"
proof -
  let ?k = "call_key (linked_id e1) c"
  let ?st1 = "fst (process_record order st e1)"
  let ?st2 = "fst (process_records order ?st1 between)"
  have o1: "snd (process_record order st e1) = [\<lparr>phone = c, metadata = e1\<rparr>]"
    using assms(1,4) by (simp add: process_record_def Let_def)
  have sum: "length (processed_calls st)
      + (1 + length (snd (process_records order ?st1 between))) \<le> 200"
    using assms(5) by (simp only: process_records_emitted o1) simp
  then have lt: "length (processed_calls st) < 200" by simp
  have k1: "?k \<in> set (processed_calls ?st1)"
    using assms(1,4) lt by (simp add: process_record_def Let_def add_call_def)
  have "length (processed_calls st) + length (snd (process_record order st e1)) \<le> 200"
    using lt by (simp add: o1)
  from process_record_no_trim [OF this]
  have l1: "length (processed_calls ?st1) = Suc (length (processed_calls st))"
    by (simp add: o1)
  have "length (processed_calls ?st1) + length (snd (process_records order ?st1 between)) \<le> 200"
    using l1 sum by simp
  from process_records_no_trim [OF this]
  have k2: "?k \<in> set (processed_calls ?st2)"
    and w2: "watch_channel ?st2 = watch_channel st"
    using k1 by (auto simp: process_record_watch)
  have "snd (process_record order ?st2 e2) = []"
    using assms(2,3) k2 w2 by (simp add: process_record_def Let_def)
  with o1 k1 show ?thesis by simp
qed

text \<open>
  The theorem at a session that starts with an empty cache: a \<^verbatim>\<open>DialBegin\<close> record of the call
  \<^verbatim>\<open>17.5\<close>, then a record of another call and a record that no method accepts, then a
  \<^verbatim>\<open>Newstate\<close> record of the call \<^verbatim>\<open>17.5\<close>.
\<close>

theorem same_call_notified_once_witness:
  "find_caller (watch_channel watching) (dial_begin ''17.5'' ''0888123456'') = Some ''0888123456''
   \<and> find_caller (watch_channel watching) (newstate ''17.5'' ''0888123456'' ''1034'')
        = Some ''0888123456''
   \<and> linked_id (dial_begin ''17.5'' ''0888123456'')
        = linked_id (newstate ''17.5'' ''0888123456'' ''1034'')
   \<and> call_key (linked_id (dial_begin ''17.5'' ''0888123456'')) ''0888123456''
        \<notin> set (processed_calls watching)
   \<and> length (processed_calls watching)
       + length (snd (process_records id watching
           (dial_begin ''17.5'' ''0888123456''
            # [dial_state ''18.2'' ''0899000111'', dial_begin ''18.3'' ''<unknown>'']))) \<le> 200
   \<and> snd (process_record id watching (dial_begin ''17.5'' ''0888123456''))
        = [\<lparr>phone = ''0888123456'', metadata = dial_begin ''17.5'' ''0888123456''\<rparr>]
   \<and> snd (process_record id
        (fst (process_records id
                (fst (process_record id watching (dial_begin ''17.5'' ''0888123456'')))
                [dial_state ''18.2'' ''0899000111'', dial_begin ''18.3'' ''<unknown>'']))
        (newstate ''17.5'' ''0888123456'' ''1034'')) = []"
proof -
  have a: "find_caller (watch_channel watching) (dial_begin ''17.5'' ''0888123456'')
        = Some ''0888123456''"
    by (simp add: scenario_eval watching_eq)
  have b: "find_caller (watch_channel watching) (newstate ''17.5'' ''0888123456'' ''1034'')
        = Some ''0888123456''"
    by (simp add: scenario_eval watching_eq)
  have c: "linked_id (dial_begin ''17.5'' ''0888123456'')
        = linked_id (newstate ''17.5'' ''0888123456'' ''1034'')"
    by (simp add: scenario_eval)
  have d: "call_key (linked_id (dial_begin ''17.5'' ''0888123456'')) ''0888123456''
        \<notin> set (processed_calls watching)"
    by (simp add: watching_eq)
  have f: "find_caller watched (dial_state ''18.2'' ''0899000111'') = Some ''0899000111''"
    by (simp add: scenario_eval)
  have g: "find_caller watched (dial_begin ''18.3'' ''<unknown>'') = None"
    by (simp add: scenario_eval)
  have h: "find_caller watched (dial_begin ''17.5'' ''0888123456'') = Some ''0888123456''"
    using a by (simp add: watching_eq)
  have "length (snd (process_records id watching
           (dial_begin ''17.5'' ''0888123456''
            # [dial_state ''18.2'' ''0899000111'', dial_begin ''18.3'' ''<unknown>'']))) \<le> 3"
    by (simp add: process_record_def watching_eq f g h Let_def split: prod.splits)
  then have e: "length (processed_calls watching)
       + length (snd (process_records id watching
           (dial_begin ''17.5'' ''0888123456''
            # [dial_state ''18.2'' ''0899000111'', dial_begin ''18.3'' ''<unknown>'']))) \<le> 200"
    by (simp add: watching_eq)
  from same_call_notified_once [OF a b c d e] a b c d e show ?thesis by simp
qed

text \<open>
  Claim C7 at the input where the code departs from it: 201 calls with pairwise different
  identifiers, processed from the start. The 201st insertion makes the cache exceed 200
  entries and the code keeps \<^verbatim>\<open>list(self._processed_calls)[-100:]\<close>, the last 100 keys in
  the order of enumeration of the set. With an enumeration that lists the newest key
  first, the cache then holds the keys of the 100 oldest calls; the key of the call just
  recorded is gone, although the claim has the most recent 100 kept.
\<close>

theorem trim_keeps_oldest_under_reverse_enumeration:
  "processed_calls (fst (process_records rev watching (map nth_call [0..<201])))
     = rev (map nth_key [0..<100])
   \<and> nth_key 200 \<notin> set (processed_calls
        (fst (process_records rev watching (map nth_call [0..<201]))))"
proof -
  have "last_items 100 (rev (map nth_key [0..<201])) = rev (take 100 (map nth_key [0..<201]))"
    by (simp add: last_items_def rev_take del: upt_rec_numeral upt_Suc)
  also have "\<dots> = rev (map nth_key [0..<100])"
    by (simp add: take_map del: upt_rec_numeral upt_Suc)
  finally have c: "processed_calls (fst (process_records rev watching (map nth_call [0..<201])))
     = rev (map nth_key [0..<100])"
    by (simp add: overflowing_call del: upt_rec_numeral upt_Suc)
  have "nth_key 200 \<notin> set (rev (map nth_key [0..<100]))"
    by (auto simp: nth_key_inj)
  with c show ?thesis by simp
qed

end
